theory Spec2Isabelle
  imports Main "HOL-Library.Word" "HOL-Library.Sublist"
begin

unbundle bit_operations_syntax

section \<open>Common definitions\<close>

text \<open>
  Error numbers of the C library the code is built against (newlib). The code only
  relies on their being positive and distinct.
\<close>

definition ENOENT :: int where "ENOENT = 2"
definition ENOMEM :: int where "ENOMEM = 12"
definition EINVAL :: int where "EINVAL = 22"
definition EBUSY :: int where "EBUSY = 16"
definition ENOSYS :: int where "ENOSYS = 88"
definition EALREADY :: int where "EALREADY = 120"

text \<open>
  Ways in which the C code leaves defined behaviour: an array access outside its bounds
  (with the offending index), a dereference of a null pointer, an access to freed memory,
  a failed \<open>assert\<close>. \<open>OutOfFuel\<close> is the model's own: the recursion bound of a
  function whose termination depends on the shape of the heap was reached.
\<close>

datatype fault = OutOfBounds int | NullDeref | UseAfterFree | AssertFailed | OutOfFuel

section \<open>VFS: data model (vfs.c)\<close>

definition MAX_FDS :: nat where "MAX_FDS = 16"
definition VFS_MAX_COUNT :: nat where "VFS_MAX_COUNT = 4"

text \<open>
  \<open>LEN_PATH_PREFIX_IGNORED\<close> is \<open>SIZE_MAX\<close>; \<open>size_t\<close> has 32 bits on the target
  (RP2040), \<open>ssize_t\<close> is its signed counterpart.
\<close>

definition LEN_PATH_PREFIX_IGNORED :: nat where "LEN_PATH_PREFIX_IGNORED = 2 ^ 32 - 1"

definition to_ssize_t :: "nat \<Rightarrow> int" where
  "to_ssize_t n = (if n mod 2 ^ 32 < 2 ^ 31 then int (n mod 2 ^ 32) else int (n mod 2 ^ 32) - 2 ^ 32)"

text \<open>
  The operation table of a backend. Only the operations that the verified functions call
  are modelled; a null function pointer is \<open>None\<close>. A backend operation is a function of
  its arguments: \<open>open\<close> takes the translated path, flags and mode and yields its return
  value and the local descriptor it stores through the output pointer; \<open>close\<close> takes the
  local descriptor and yields its return value. The driver context is opaque and omitted.
\<close>

record pico_vfs_ops =
  open_op :: "(string \<Rightarrow> int \<Rightarrow> int \<Rightarrow> int \<times> int) option"
  close_op :: "(int \<Rightarrow> int) option"

record pico_vfs_entry =
  ops :: pico_vfs_ops
  path_prefix :: string
  path_prefix_len :: nat
  index :: nat

record pico_vfs_fd_table =
  vfs_index :: int
  local_fd :: int
  permanent :: bool

definition FD_TABLE_ENTRY_UNUSED :: pico_vfs_fd_table where
  "FD_TABLE_ENTRY_UNUSED = \<lparr>vfs_index = -1, local_fd = -1, permanent = False\<rparr>"

text \<open>
  What the outside world observes: the weak notification hooks and the calls made into
  backends, in order.
\<close>

datatype vfs_event =
    RegisterEvent string
  | DeregisterEvent string
  | BackendOpen nat string
  | BackendClose nat int

text \<open>
  The file-scope state of vfs.c: the descriptor table, the registry with its high-water
  mark, the calling thread's \<open>errno\<close>, and the observable events so far.
\<close>

record vfs_state =
  s_fd_table :: "pico_vfs_fd_table list"
  s_vfs :: "pico_vfs_entry option list"
  s_vfs_count :: nat
  vfs_initialised :: bool
  errno :: int
  events :: "vfs_event list"

section \<open>VFS: path resolution\<close>

text \<open>
  One iteration of the loop of \<open>pico_vfs_get_vfs_entry_for_path\<close> on the slot content
  \<open>slot\<close>, with the loop variables \<open>best_match\<close> and \<open>best_match_prefix_len\<close> as a pair.
  \<open>memcmp\<close> over the first \<open>path_prefix_len\<close> bytes is the comparison of the two
  \<open>take\<close>s; it is reached only when the path is at least that long.
\<close>

definition path_scan_step ::
  "string \<Rightarrow> pico_vfs_entry option \<Rightarrow> pico_vfs_entry option \<times> int \<Rightarrow> pico_vfs_entry option \<times> int" where
  "path_scan_step path slot acc =
     (case slot of
        None \<Rightarrow> acc
      | Some vfs \<Rightarrow>
          if path_prefix_len vfs = LEN_PATH_PREFIX_IGNORED then acc
          else if length path < path_prefix_len vfs
                  \<or> take (path_prefix_len vfs) path \<noteq> take (path_prefix_len vfs) (path_prefix vfs)
          then acc
          else if path_prefix_len vfs = 0 \<and> Option.is_none (fst acc) then (Some vfs, snd acc)
          else if length path > path_prefix_len vfs \<and> path ! path_prefix_len vfs \<noteq> CHR ''/''
          then acc
          else if snd acc < to_ssize_t (path_prefix_len vfs)
          then (Some vfs, to_ssize_t (path_prefix_len vfs))
          else acc)"

fun path_scan ::
  "string \<Rightarrow> pico_vfs_entry option list \<Rightarrow> pico_vfs_entry option \<times> int \<Rightarrow> pico_vfs_entry option \<times> int" where
  "path_scan path [] acc = acc"
| "path_scan path (slot # rest) acc = path_scan path rest (path_scan_step path slot acc)"

definition pico_vfs_get_vfs_entry_for_path :: "vfs_state \<Rightarrow> string \<Rightarrow> pico_vfs_entry option" where
  "pico_vfs_get_vfs_entry_for_path st path =
     fst (path_scan path (take (s_vfs_count st) (s_vfs st)) (None, -1))"

text \<open>The entries the loop visits: the occupied slots below \<open>s_vfs_count\<close>.\<close>

definition occupied :: "vfs_state \<Rightarrow> pico_vfs_entry set" where
  "occupied st = {e. Some e \<in> set (take (s_vfs_count st) (s_vfs st))}"

text \<open>
  An entry as \<open>pico_vfs_register_common\<close> builds it: either it carries the ignored
  sentinel, or its recorded length is the length of its prefix, which fits \<open>ssize_t\<close>.
\<close>

definition entry_ok :: "pico_vfs_entry \<Rightarrow> bool" where
  "entry_ok e \<longleftrightarrow>
     path_prefix_len e = LEN_PATH_PREFIX_IGNORED
     \<or> (path_prefix_len e = length (path_prefix e) \<and> length (path_prefix e) < 2 ^ 31)"

text \<open>
  The matching rule in the specification's words: the entry is not ignored, its prefix is
  a prefix of the path, and a non-empty prefix strictly shorter than the path is followed
  in the path by a slash.
\<close>

definition spec_matches :: "string \<Rightarrow> pico_vfs_entry \<Rightarrow> bool" where
  "spec_matches p e \<longleftrightarrow>
     path_prefix_len e \<noteq> LEN_PATH_PREFIX_IGNORED
     \<and> prefix (path_prefix e) p
     \<and> (path_prefix e \<noteq> [] \<and> length (path_prefix e) < length p
          \<longrightarrow> p ! length (path_prefix e) = CHR ''/'')"

section \<open>VFS: registration\<close>

text \<open>The character at position \<open>i\<close> of a C string; the terminator follows its last character.\<close>

definition cstr_at :: "string \<Rightarrow> nat \<Rightarrow> char" where
  "cstr_at s i = (if i < length s then s ! i else CHR 0x00)"


text \<open>
  The search loop of \<open>pico_vfs_register_common\<close>: the first index below \<open>s_vfs_count\<close>
  whose slot is null, or \<open>s_vfs_count\<close> when there is none. The list argument is
  the part of the array from index \<open>i\<close> up to \<open>s_vfs_count\<close>.
\<close>

fun find_free_slot :: "pico_vfs_entry option list \<Rightarrow> nat \<Rightarrow> nat" where
  "find_free_slot [] i = i"
| "find_free_slot (slot # rest) i =
     (case slot of None \<Rightarrow> i | Some _ \<Rightarrow> find_free_slot rest (Suc i))"

text \<open>
  \<open>pico_vfs_register_common\<close>. \<open>pmax\<close> is the macro \<open>PICO_VFS_BASE_PATH_MAX\<close>, which
  pico/vfs.h declares; \<open>alloc_ok\<close> tells whether \<open>malloc\<close> succeeds. The result is the
  return value, the index stored through \<open>vfs_index\<close> (if the function got that far) and
  the new state.
\<close>

definition pico_vfs_register_common ::
  "nat \<Rightarrow> bool \<Rightarrow> string \<Rightarrow> nat \<Rightarrow> pico_vfs_ops \<Rightarrow> vfs_state \<Rightarrow> int \<times> nat option \<times> vfs_state" where
  "pico_vfs_register_common pmax alloc_ok base_path len vops st =
     (if len \<noteq> LEN_PATH_PREFIX_IGNORED \<and> ((len \<noteq> 0 \<and> len < 2) \<or> len > pmax)
      then (EINVAL, None, st)
      else if len \<noteq> LEN_PATH_PREFIX_IGNORED
              \<and> ((len > 0 \<and> cstr_at base_path 0 \<noteq> CHR ''/'')
                  \<or> (len > 0 \<and> cstr_at base_path (len - 1) = CHR ''/''))
      then (EINVAL, None, st)
      else if \<not> alloc_ok then (ENOMEM, None, st)
      else
        let idx = find_free_slot (take (s_vfs_count st) (s_vfs st)) 0 in
        if idx = s_vfs_count st \<and> s_vfs_count st \<ge> VFS_MAX_COUNT then (ENOMEM, None, st)
        else
          let entry = \<lparr>ops = vops,
                       path_prefix = (if len \<noteq> LEN_PATH_PREFIX_IGNORED then base_path else []),
                       path_prefix_len = len,
                       index = idx\<rparr>
          in (0, Some idx,
              st\<lparr>s_vfs := (s_vfs st)[idx := Some entry],
                 s_vfs_count := (if idx = s_vfs_count st then s_vfs_count st + 1 else s_vfs_count st)\<rparr>))"

text \<open>
  \<open>pico_vfs_register\<close>: the local \<open>index\<close> starts at \<open>-1\<close> and is overwritten only when
  \<open>pico_vfs_register_common\<close> stores through the pointer.
\<close>

definition pico_vfs_register ::
  "nat \<Rightarrow> bool \<Rightarrow> string \<Rightarrow> pico_vfs_ops \<Rightarrow> vfs_state \<Rightarrow> int \<times> vfs_state" where
  "pico_vfs_register pmax alloc_ok base_path vops st =
     (case pico_vfs_register_common pmax alloc_ok base_path (length base_path) vops st of
        (r, out, st1) \<Rightarrow>
          let idx = (case out of None \<Rightarrow> -1 | Some i \<Rightarrow> int i) in
          if r < 0 then (r, st1)
          else (idx, st1\<lparr>events := events st1 @ [RegisterEvent base_path]\<rparr>))"

text \<open>
  \<open>pico_vfs_unregister\<close> indexes \<open>s_vfs\<close> with its argument unchecked.
\<close>

definition pico_vfs_unregister :: "int \<Rightarrow> vfs_state \<Rightarrow> fault + (int \<times> vfs_state)" where
  "pico_vfs_unregister idx st =
     (if idx < 0 \<or> idx \<ge> int (length (s_vfs st)) then Inl (OutOfBounds idx)
      else case s_vfs st ! nat idx of
             None \<Rightarrow> Inr (-1, st)
           | Some vfs \<Rightarrow>
               Inr (0, st\<lparr>s_vfs := (s_vfs st)[nat idx := None],
                          events := events st @ [DeregisterEvent (path_prefix vfs)]\<rparr>))"

section \<open>VFS: descriptor table\<close>

text \<open>
  The inner loop of \<open>pico_vfs_register_fd_range_for_vfs_index\<close>: rows \<open>j\<close>, \<open>j + 1\<close>, ...
  below \<open>i\<close> that carry \<open>index\<close> are reset. Every such row was read by the outer loop
  before, so it lies inside the table.
\<close>

function fd_range_rollback :: "int \<Rightarrow> int \<Rightarrow> int \<Rightarrow> pico_vfs_fd_table list \<Rightarrow> pico_vfs_fd_table list" where
  "fd_range_rollback idx j i tbl =
     (if j < i
      then fd_range_rollback idx (j + 1) i
             (if vfs_index (tbl ! nat j) = idx then tbl[nat j := FD_TABLE_ENTRY_UNUSED] else tbl)
      else tbl)"
  by pat_completeness auto
termination
  by (relation "measure (\<lambda>(idx, j, i, tbl). nat (i - j))") auto

text \<open>
  The outer loop, from row \<open>i\<close> on. The code reads and writes \<open>s_fd_table[i]\<close> without a
  bounds check; an index outside the table is the fault \<open>OutOfBounds i\<close>.
\<close>

function fd_range_loop ::
  "int \<Rightarrow> int \<Rightarrow> int \<Rightarrow> int \<Rightarrow> pico_vfs_fd_table list \<Rightarrow> fault + (int \<times> pico_vfs_fd_table list)" where
  "fd_range_loop idx min_fd max_fd i tbl =
     (if i \<le> max_fd then
        (if i < 0 \<or> i \<ge> int (length tbl) then Inl (OutOfBounds i)
         else if vfs_index (tbl ! nat i) \<noteq> -1
         then Inr (EINVAL, fd_range_rollback idx min_fd i tbl)
         else fd_range_loop idx min_fd max_fd (i + 1)
                (tbl[nat i := \<lparr>vfs_index = idx, local_fd = i, permanent = True\<rparr>]))
      else Inr (0, tbl))"
  by pat_completeness auto
termination
  by (relation "measure (\<lambda>(idx, min_fd, max_fd, i, tbl). nat (max_fd + 1 - i))") auto

definition pico_vfs_register_fd_range_for_vfs_index ::
  "int \<Rightarrow> int \<Rightarrow> int \<Rightarrow> vfs_state \<Rightarrow> fault + (int \<times> vfs_state)" where
  "pico_vfs_register_fd_range_for_vfs_index idx min_fd max_fd st =
     (case fd_range_loop idx min_fd max_fd min_fd (s_fd_table st) of
        Inl f \<Rightarrow> Inl f
      | Inr (r, tbl) \<Rightarrow> Inr (r, st\<lparr>s_fd_table := tbl\<rparr>))"

definition fd_range_args_rejected :: "int \<Rightarrow> int \<Rightarrow> bool" where
  "fd_range_args_rejected min_fd max_fd \<longleftrightarrow>
     min_fd < 0 \<or> max_fd < 0 \<or> min_fd > int MAX_FDS \<or> max_fd > int MAX_FDS \<or> min_fd > max_fd"

definition pico_vfs_register_fd_range ::
  "nat \<Rightarrow> bool \<Rightarrow> pico_vfs_ops \<Rightarrow> int \<Rightarrow> int \<Rightarrow> vfs_state \<Rightarrow> fault + (int \<times> vfs_state)" where
  "pico_vfs_register_fd_range pmax alloc_ok vops min_fd max_fd st =
     (if fd_range_args_rejected min_fd max_fd then Inr (EINVAL, st)
      else
        case pico_vfs_register_common pmax alloc_ok [] LEN_PATH_PREFIX_IGNORED vops st of
          (ret, out, st1) \<Rightarrow>
            let idx = (case out of None \<Rightarrow> -1 | Some i \<Rightarrow> int i) in
            if ret = 0 then
              (case pico_vfs_register_fd_range_for_vfs_index idx min_fd max_fd st1 of
                 Inl f \<Rightarrow> Inl f
               | Inr (ret2, st2) \<Rightarrow> Inr (if ret2 \<noteq> 0 then -1 else idx, st2))
            else Inr (-1, st1))"









section \<open>VFS: the root directory backend\<close>

text \<open>
  \<open>pico_vfs_internal_dir_t\<close>: the embedded \<open>DIR\<close> with the backend index and the entry
  that \<open>readdir\<close> fills in, and the offset \<open>d_off\<close> (an \<open>unsigned short\<close>; the code only
  ever stores values between 0 and \<open>VFS_MAX_COUNT\<close> in it).
\<close>

record pico_vfs_internal_dir =
  d_vfs_index :: int
  d_name :: string
  d_off :: nat

text \<open>
  \<open>pico_vfs_root_opendir\<close> writes to the handle without checking what \<open>malloc\<close>
  returned (\<open>alloc_ok\<close> tells whether it succeeds).
\<close>

definition pico_vfs_root_opendir ::
  "bool \<Rightarrow> string \<Rightarrow> vfs_state \<Rightarrow> fault + (pico_vfs_internal_dir option \<times> vfs_state)" where
  "pico_vfs_root_opendir alloc_ok name st =
     (if name = [] then Inr (None, st\<lparr>errno := ENOENT\<rparr>)
      else if name = ''/'' then
        (if alloc_ok then Inr (Some \<lparr>d_vfs_index = 0, d_name = [], d_off = 0\<rparr>, st)
         else Inl NullDeref)
      else Inr (None, st\<lparr>errno := ENOENT\<rparr>))"

definition pico_vfs_root_seekdir :: "pico_vfs_internal_dir \<Rightarrow> int \<Rightarrow> pico_vfs_internal_dir" where
  "pico_vfs_root_seekdir dir loc =
     (if loc \<ge> 0 \<and> loc < int VFS_MAX_COUNT then dir\<lparr>d_off := nat loc\<rparr> else dir)"

definition pico_vfs_root_telldir :: "pico_vfs_internal_dir \<Rightarrow> int" where
  "pico_vfs_root_telldir dir = int (d_off dir)"

text \<open>
  The \<open>do ... while\<close> loop of \<open>pico_vfs_root_readdir\<close>, entered with
  \<open>cindex < VFS_MAX_COUNT\<close>: the result is the entry found (if any) and the final \<open>cindex\<close>.
\<close>

function root_readdir_scan :: "pico_vfs_entry option list \<Rightarrow> nat \<Rightarrow> pico_vfs_entry option \<times> nat" where
  "root_readdir_scan slots cindex =
     (case (case slots ! cindex of
              None \<Rightarrow> None
            | Some vfs \<Rightarrow> if cstr_at (path_prefix vfs) 0 = CHR 0x00 then None else Some vfs) of
        Some vfs \<Rightarrow> (Some vfs, cindex)
      | None \<Rightarrow>
          if cindex + 1 < VFS_MAX_COUNT then root_readdir_scan slots (cindex + 1)
          else (None, cindex + 1))"
  by pat_completeness auto
termination
  by (relation "measure (\<lambda>(slots, cindex). VFS_MAX_COUNT - cindex)") auto

definition pico_vfs_root_readdir ::
  "vfs_state \<Rightarrow> pico_vfs_internal_dir \<Rightarrow> string option \<times> pico_vfs_internal_dir" where
  "pico_vfs_root_readdir st dir =
     (if d_off dir \<ge> VFS_MAX_COUNT then (None, dir)
      else
        case root_readdir_scan (s_vfs st) (d_off dir) of
          (None, cindex) \<Rightarrow> (None, dir)
        | (Some vfs, cindex) \<Rightarrow>
            let path = (if cstr_at (path_prefix vfs) 0 = CHR ''/'' then drop 1 (path_prefix vfs)
                        else path_prefix vfs)
            in (Some path, dir\<lparr>d_off := cindex + 1, d_name := path\<rparr>))"

text \<open>
  The state before \<open>pico_vfs_init\<close> (statics are zero-initialised), and \<open>pico_vfs_init\<close>,
  which marks every row free and registers the root backend, whose operation table has
  directory operations only.
\<close>

definition vfs_static_init :: vfs_state where
  "vfs_static_init =
     \<lparr>s_fd_table = replicate MAX_FDS \<lparr>vfs_index = 0, local_fd = 0, permanent = False\<rparr>,
      s_vfs = replicate VFS_MAX_COUNT None,
      s_vfs_count = 0,
      vfs_initialised = False,
      errno = 0,
      events = []\<rparr>"

definition rootops :: pico_vfs_ops where
  "rootops = \<lparr>open_op = None, close_op = None\<rparr>"

definition pico_vfs_init :: "nat \<Rightarrow> bool \<Rightarrow> vfs_state \<Rightarrow> int \<times> vfs_state" where
  "pico_vfs_init pmax alloc_ok st =
     (if vfs_initialised st then (EBUSY, st)
      else
        let st1 = st\<lparr>vfs_initialised := True,
                     s_fd_table := map (\<lambda>row. row\<lparr>vfs_index := -1\<rparr>) (s_fd_table st)\<rparr> in
        case pico_vfs_register_common pmax alloc_ok [] 0 rootops st1 of
          (ret, out, st2) \<Rightarrow>
            if ret < 0 then (ret, st2)
            else ((case out of None \<Rightarrow> -1 | Some i \<Rightarrow> int i), st2))"

section \<open>Block devices: data model (object.h, blockdev.h, blockdev.c, partition.c)\<close>

text \<open>
  A driver's operation table. \<open>read_sector\<close> takes the start sector and the count and
  yields its return value and the contents it leaves in the caller's buffer; \<open>ioctl\<close>
  takes the command and yields its return value and the 32-bit value it stores through
  the data pointer, if any. A driver's \<open>destroy\<close> is taken to free the device and nothing
  else; \<open>destroy_op\<close> tells whether the table has one.
\<close>

record pico_blockdev_ops =
  read_sector_op :: "(32 word \<Rightarrow> nat \<Rightarrow> int \<times> 8 word list) option"
  ioctl_op :: "(8 word \<Rightarrow> int \<times> 32 word option) option"
  destroy_op :: bool

text \<open>What \<open>dev->ops\<close> points to: a driver's table, or \<open>part_ops\<close> of partition.c.\<close>

datatype blockdev_vtable = DriverOps pico_blockdev_ops | PartOps

text \<open>
  \<open>struct pico_blockdev__\<close> with the reference count of the embedded object header,
  pointers as addresses (\<open>None\<close> is the null pointer), the list of child links as the list
  of the devices they point to (head first), and the two fields that
  \<open>pico_blockdev_part_t\<close> appends (meaningful for partition devices only).
\<close>

record pico_blockdev =
  refcnt :: "8 word"
  bd_ops :: blockdev_vtable
  parent :: "nat option"
  children :: "nat list"
  start_sector :: "32 word"
  num_sectors :: "32 word"

datatype bd_event =
    BdRegisterEvent nat
  | BdUnregisterEvent "nat option"
  | LogDebug
  | LogInfo "32 word" "32 word"
  | LogError int

text \<open>
  The heap of device objects, the allocator (the next fresh address, and the outcomes of
  the coming \<open>malloc\<close> calls: once the list is used up every call succeeds), the devices
  whose vtable \<open>destroy\<close> has been invoked, in order, and the notifications and log lines.
\<close>

record bd_state =
  heap :: "nat \<Rightarrow> pico_blockdev option"
  next_addr :: nat
  alloc_plan :: "bool list"
  destroyed :: "nat list"
  bd_log :: "bd_event list"

definition malloc :: "bd_state \<Rightarrow> nat option \<times> bd_state" where
  "malloc st =
     (case alloc_plan st of
        [] \<Rightarrow> (Some (next_addr st), st\<lparr>next_addr := Suc (next_addr st)\<rparr>)
      | ok # rest \<Rightarrow>
          if ok then (Some (next_addr st), st\<lparr>next_addr := Suc (next_addr st), alloc_plan := rest\<rparr>)
          else (None, st\<lparr>alloc_plan := rest\<rparr>))"

definition PICO_IOCTL_BLKGETSIZE :: "8 word" where "PICO_IOCTL_BLKGETSIZE = 0"

section \<open>Block devices: reference counting and destruction\<close>

text \<open>\<open>pico_object_ref\<close> and \<open>pico_object_ref_nolock\<close> on a non-null object.\<close>

definition pico_object_ref :: "nat \<Rightarrow> bd_state \<Rightarrow> fault + bd_state" where
  "pico_object_ref a st =
     (case heap st a of
        None \<Rightarrow> Inl UseAfterFree
      | Some d \<Rightarrow>
          if refcnt d = 255 then Inl AssertFailed
          else Inr (st\<lparr>heap := (heap st)(a \<mapsto> d\<lparr>refcnt := refcnt d + 1\<rparr>)\<rparr>))"

text \<open>
  \<open>pico_object_unref\<close> (which \<open>pico_blockdev_unref\<close> wraps) calls the dealloc hook
  \<open>pico_blockdev_destroy_object\<close> when the count reaches zero; that calls the vtable's
  \<open>destroy\<close>, and \<open>pico_blockdev_part_destroy\<close> in turn drops the reference on the parent.
  The recursion follows parent pointers in the heap, so it carries a bound.
\<close>

fun pico_object_unref :: "nat \<Rightarrow> nat option \<Rightarrow> bd_state \<Rightarrow> fault + (nat option \<times> bd_state)"
  and pico_blockdev_destroy_object :: "nat \<Rightarrow> nat \<Rightarrow> bd_state \<Rightarrow> fault + bd_state"
  and pico_blockdev_part_destroy :: "nat \<Rightarrow> nat \<Rightarrow> bd_state \<Rightarrow> fault + bd_state"
where
  "pico_object_unref 0 obj st = Inl OutOfFuel"
| "pico_object_unref (Suc n) None st = Inr (None, st)"
| "pico_object_unref (Suc n) (Some a) st =
     (case heap st a of
        None \<Rightarrow> Inl UseAfterFree
      | Some d \<Rightarrow>
          if refcnt d = 0 then Inl AssertFailed
          else
            let st1 = st\<lparr>heap := (heap st)(a \<mapsto> d\<lparr>refcnt := refcnt d - 1\<rparr>)\<rparr> in
            if refcnt d - 1 = 0 then
              (case pico_blockdev_destroy_object n a st1 of
                 Inl f \<Rightarrow> Inl f
               | Inr st2 \<Rightarrow> Inr (None, st2))
            else Inr (Some a, st1))"
| "pico_blockdev_destroy_object 0 a st = Inl OutOfFuel"
| "pico_blockdev_destroy_object (Suc n) a st =
     (case heap st a of
        None \<Rightarrow> Inl UseAfterFree
      | Some d \<Rightarrow>
          (case bd_ops d of
             DriverOps dops \<Rightarrow>
               if destroy_op dops
               then Inr (st\<lparr>destroyed := destroyed st @ [a], heap := (heap st)(a := None)\<rparr>)
               else Inr st
           | PartOps \<Rightarrow> pico_blockdev_part_destroy n a (st\<lparr>destroyed := destroyed st @ [a]\<rparr>)))"
| "pico_blockdev_part_destroy 0 a st = Inl OutOfFuel"
| "pico_blockdev_part_destroy (Suc n) a st =
     (case heap st a of
        None \<Rightarrow> Inl UseAfterFree
      | Some d \<Rightarrow>
          (case pico_object_unref n (parent d) st of
             Inl f \<Rightarrow> Inl f
           | Inr (_, st1) \<Rightarrow> Inr (st1\<lparr>heap := (heap st1)(a := None)\<rparr>)))"

section \<open>Block devices: topology\<close>

text \<open>\<open>pico_blockdev_init\<close> on the pointer \<open>dev\<close>; the partition fields are not written.\<close>

definition pico_blockdev_init :: "nat option \<Rightarrow> blockdev_vtable \<Rightarrow> bd_state \<Rightarrow> fault + bd_state" where
  "pico_blockdev_init dev vt st =
     (case dev of
        None \<Rightarrow> Inl NullDeref
      | Some a \<Rightarrow>
          let old = (case heap st a of None \<Rightarrow> (0, 0) | Some d \<Rightarrow> (start_sector d, num_sectors d))
          in Inr (st\<lparr>heap := (heap st)(a \<mapsto>
                   \<lparr>refcnt = 1, bd_ops = vt, parent = None, children = [],
                    start_sector = fst old, num_sectors = snd old\<rparr>)\<rparr>))"

definition update_dev :: "nat \<Rightarrow> (pico_blockdev \<Rightarrow> pico_blockdev) \<Rightarrow> bd_state \<Rightarrow> bd_state" where
  "update_dev a f st =
     (case heap st a of None \<Rightarrow> st | Some d \<Rightarrow> st\<lparr>heap := (heap st)(a \<mapsto> f d)\<rparr>)"

definition pico_blockdev_add_child :: "nat \<Rightarrow> nat \<Rightarrow> bd_state \<Rightarrow> fault + (int \<times> bd_state)" where
  "pico_blockdev_add_child dev child st =
     (case heap st child of
        None \<Rightarrow> Inl UseAfterFree
      | Some c \<Rightarrow>
          if parent c \<noteq> None then Inr (- EALREADY, st)
          else
            (case malloc st of
               (None, st1) \<Rightarrow> Inr (- ENOMEM, st1)
             | (Some link, st1) \<Rightarrow>
                 (case heap st1 dev of
                    None \<Rightarrow> Inl UseAfterFree
                  | Some d \<Rightarrow>
                      let st2 = update_dev dev (\<lambda>d. d\<lparr>children := child # children d\<rparr>) st1;
                          st3 = update_dev child (\<lambda>c. c\<lparr>parent := Some dev\<rparr>) st2
                      in (case pico_object_ref child st3 of
                            Inl f \<Rightarrow> Inl f
                          | Inr st4 \<Rightarrow>
                              (case pico_object_ref dev st4 of
                                 Inl f \<Rightarrow> Inl f
                               | Inr st5 \<Rightarrow> Inr (0, st5))))))"

text \<open>
  \<open>pico_blockdev_unregister\<close>: one equation per state of the \<open>while\<close> loop. \<open>link->next\<close>
  is the rest of the child list as it was when the iteration started.
\<close>

fun pico_blockdev_unregister :: "nat \<Rightarrow> nat option \<Rightarrow> bd_state \<Rightarrow> fault + bd_state" where
  "pico_blockdev_unregister 0 dev st = Inl OutOfFuel"
| "pico_blockdev_unregister (Suc n) None st =
     Inr (st\<lparr>bd_log := bd_log st @ [BdUnregisterEvent None]\<rparr>)"
| "pico_blockdev_unregister (Suc n) (Some a) st =
     (case heap st a of
        None \<Rightarrow> Inl UseAfterFree
      | Some d \<Rightarrow>
          (case children d of
             [] \<Rightarrow> Inr (st\<lparr>bd_log := bd_log st @ [BdUnregisterEvent (Some a)]\<rparr>)
           | link_dev # link_next \<Rightarrow>
               (case pico_blockdev_unregister n (Some link_dev) st of
                  Inl f \<Rightarrow> Inl f
                | Inr st1 \<Rightarrow>
                    (case pico_object_unref n (Some a) st1 of
                       Inl f \<Rightarrow> Inl f
                     | Inr (None, st2) \<Rightarrow> pico_blockdev_unregister n None st2
                     | Inr (Some a', st2) \<Rightarrow>
                         pico_blockdev_unregister n (Some a')
                           (update_dev a' (\<lambda>d. d\<lparr>children := link_next\<rparr>) st2)))))"

section \<open>Block devices: sector access and ioctl\<close>

text \<open>
  \<open>pico_blockdev_part_read_sector\<close> calls the parent's \<open>read_sector\<close> with the start
  sector shifted; the parent may be a partition itself.
\<close>

fun pico_blockdev_part_read_sector ::
  "nat \<Rightarrow> bd_state \<Rightarrow> nat \<Rightarrow> 32 word \<Rightarrow> nat \<Rightarrow> fault + (int \<times> 8 word list)" where
  "pico_blockdev_part_read_sector 0 st dev start cnt = Inl OutOfFuel"
| "pico_blockdev_part_read_sector (Suc n) st dev start cnt =
     (case heap st dev of
        None \<Rightarrow> Inl UseAfterFree
      | Some d \<Rightarrow>
          (case parent d of
             None \<Rightarrow> Inl NullDeref
           | Some p \<Rightarrow>
               (case heap st p of
                  None \<Rightarrow> Inl UseAfterFree
                | Some pd \<Rightarrow>
                    (case bd_ops pd of
                       DriverOps dops \<Rightarrow>
                         (case read_sector_op dops of
                            None \<Rightarrow> Inr (- ENOSYS, [])
                          | Some f \<Rightarrow> Inr (f (start + start_sector d) cnt))
                     | PartOps \<Rightarrow>
                         pico_blockdev_part_read_sector n st p (start + start_sector d) cnt))))"

definition pico_blockdev_read_sector ::
  "nat \<Rightarrow> bd_state \<Rightarrow> nat \<Rightarrow> 32 word \<Rightarrow> nat \<Rightarrow> fault + (int \<times> 8 word list)" where
  "pico_blockdev_read_sector fuel st dev start cnt =
     (case heap st dev of
        None \<Rightarrow> Inl UseAfterFree
      | Some d \<Rightarrow>
          (case bd_ops d of
             DriverOps dops \<Rightarrow>
               (case read_sector_op dops of
                  None \<Rightarrow> Inr (- ENOSYS, [])
                | Some f \<Rightarrow> Inr (f start cnt))
           | PartOps \<Rightarrow> pico_blockdev_part_read_sector fuel st dev start cnt))"

fun pico_blockdev_part_ioctl ::
  "nat \<Rightarrow> bd_state \<Rightarrow> nat \<Rightarrow> 8 word \<Rightarrow> fault + (int \<times> 32 word option)" where
  "pico_blockdev_part_ioctl 0 st dev cmd = Inl OutOfFuel"
| "pico_blockdev_part_ioctl (Suc n) st dev cmd =
     (case heap st dev of
        None \<Rightarrow> Inl UseAfterFree
      | Some d \<Rightarrow>
          if cmd = PICO_IOCTL_BLKGETSIZE then Inr (0, Some (num_sectors d))
          else
            (case parent d of
               None \<Rightarrow> Inl NullDeref
             | Some p \<Rightarrow>
                 (case heap st p of
                    None \<Rightarrow> Inl UseAfterFree
                  | Some pd \<Rightarrow>
                      (case bd_ops pd of
                         DriverOps dops \<Rightarrow>
                           (case ioctl_op dops of
                              None \<Rightarrow> Inr (-1, None)
                            | Some f \<Rightarrow> Inr (f cmd))
                       | PartOps \<Rightarrow> pico_blockdev_part_ioctl n st p cmd))))"

definition pico_blockdev_ioctl ::
  "nat \<Rightarrow> bd_state \<Rightarrow> nat \<Rightarrow> 8 word \<Rightarrow> fault + (int \<times> 32 word option)" where
  "pico_blockdev_ioctl fuel st dev cmd =
     (case heap st dev of
        None \<Rightarrow> Inl UseAfterFree
      | Some d \<Rightarrow>
          (case bd_ops d of
             DriverOps dops \<Rightarrow>
               (case ioctl_op dops of
                  None \<Rightarrow> Inr (- ENOSYS, None)
                | Some f \<Rightarrow> Inr (f cmd))
           | PartOps \<Rightarrow> pico_blockdev_part_ioctl fuel st dev cmd))"

section \<open>Block devices: registration and the MS-DOS partition scan\<close>

definition pico_blockdev_extractle32 :: "8 word list \<Rightarrow> nat \<Rightarrow> 32 word" where
  "pico_blockdev_extractle32 src off =
     (ucast (src ! off)
      OR push_bit 8 (ucast (src ! (off + 1)))
      OR push_bit 16 (ucast (src ! (off + 2)))
      OR push_bit 24 (ucast (src ! (off + 3))))"

text \<open>
  \<open>struct msdos_partition\<close> is 16 bytes: \<open>sys_ind\<close> at offset 4, \<open>start_sect\<close> at 8,
  \<open>nr_sects\<close> at 12. \<open>source\<close> is the sector from byte \<open>0x1be\<close> on.
  \<open>scan_entries\<close> is the \<open>for\<close> loop of \<open>pico_blockdev_scan_partitions\<close> over the
  indices still to visit.
\<close>

fun pico_blockdev_register :: "nat \<Rightarrow> nat \<Rightarrow> bd_state \<Rightarrow> fault + (int \<times> bd_state)"
  and pico_blockdev_scan_partitions :: "nat \<Rightarrow> nat \<Rightarrow> bd_state \<Rightarrow> fault + bd_state"
  and scan_entries :: "nat \<Rightarrow> nat \<Rightarrow> 8 word list \<Rightarrow> nat list \<Rightarrow> bd_state \<Rightarrow> fault + bd_state"
  and pico_blockdev_check_msdos_partition ::
        "nat \<Rightarrow> nat \<Rightarrow> 8 word list \<Rightarrow> nat \<Rightarrow> bd_state \<Rightarrow> fault + bd_state"
where
  "pico_blockdev_register 0 dev st = Inl OutOfFuel"
| "pico_blockdev_register (Suc n) dev st =
     (case heap st dev of
        None \<Rightarrow> Inl UseAfterFree
      | Some d \<Rightarrow>
          (case (if parent d = None then pico_blockdev_scan_partitions n dev st else Inr st) of
             Inl f \<Rightarrow> Inl f
           | Inr st1 \<Rightarrow>
               (case pico_object_unref n (Some dev) (st1\<lparr>bd_log := bd_log st1 @ [BdRegisterEvent dev]\<rparr>) of
                  Inl f \<Rightarrow> Inl f
                | Inr (_, st2) \<Rightarrow> Inr (0, st2))))"
| "pico_blockdev_scan_partitions 0 dev st = Inl OutOfFuel"
| "pico_blockdev_scan_partitions (Suc n) dev st =
     (case pico_blockdev_read_sector n st dev 0 1 of
        Inl f \<Rightarrow> Inl f
      | Inr (r, sect) \<Rightarrow>
          if r = 1 then
            (if sect ! 510 = 0x55 \<and> sect ! 511 = 0xAA
             then scan_entries n dev (drop 0x1be sect) [0, 1, 2, 3] (st\<lparr>bd_log := bd_log st @ [LogDebug]\<rparr>)
             else Inr st)
          else Inr (st\<lparr>bd_log := bd_log st @ [LogError r]\<rparr>))"
| "scan_entries n dev source [] st = Inr st"
| "scan_entries 0 dev source (i # rest) st = Inl OutOfFuel"
| "scan_entries (Suc n) dev source (i # rest) st =
     (case pico_blockdev_check_msdos_partition n dev source i st of
        Inl f \<Rightarrow> Inl f
      | Inr st1 \<Rightarrow> scan_entries (Suc n) dev source rest st1)"
| "pico_blockdev_check_msdos_partition 0 dev source i st = Inl OutOfFuel"
| "pico_blockdev_check_msdos_partition (Suc n) dev source i st =
     (if source ! (i * 16 + 4) \<noteq> 0 then
        (let start = pico_blockdev_extractle32 source (i * 16 + 8);
             size = pico_blockdev_extractle32 source (i * 16 + 12)
         in case malloc st of
              (newdev, st1) \<Rightarrow>
                (case pico_blockdev_init newdev PartOps st1 of
                   Inl f \<Rightarrow> Inl f
                 | Inr st2 \<Rightarrow>
                     let nd = the newdev;
                         st3 = update_dev nd (\<lambda>d. d\<lparr>num_sectors := size\<rparr>) st2;
                         st4 = update_dev nd (\<lambda>d. d\<lparr>start_sector := start\<rparr>) st3
                     in (case pico_blockdev_add_child dev nd st4 of
                           Inl f \<Rightarrow> Inl f
                         | Inr (r, st5) \<Rightarrow>
                             if r = 0 then
                               (case pico_blockdev_register n nd (st5\<lparr>bd_log := bd_log st5 @ [LogInfo start size]\<rparr>) of
                                  Inl f \<Rightarrow> Inl f
                                | Inr (_, st6) \<Rightarrow> Inr st6)
                             else Inr (st5\<lparr>bd_log := bd_log st5 @ [LogError r]\<rparr>))))
      else Inr st)"

section \<open>Predicates and scenarios used in the statements\<close>

text \<open>
  The loop invariant of the path scan, over the entries \<open>seen\<close> so far: without a best
  match the recorded length is \<open>-1\<close> and no entry seen matches; with one, it is an entry
  seen that matches, the recorded length is its prefix length (or still \<open>-1\<close> when it is
  the default entry taken by the first branch), and no matching entry seen is longer.
\<close>

definition acc_inv :: "string \<Rightarrow> pico_vfs_entry set \<Rightarrow> pico_vfs_entry option \<times> int \<Rightarrow> bool" where
  "acc_inv p seen acc \<longleftrightarrow>
     (case fst acc of
        None \<Rightarrow> snd acc = -1 \<and> (\<forall>e \<in> seen. \<not> spec_matches p e)
      | Some b \<Rightarrow> b \<in> seen \<and> spec_matches p b
                  \<and> (snd acc = int (length (path_prefix b)) \<or> snd acc = -1 \<and> path_prefix b = [])
                  \<and> (\<forall>e \<in> seen. spec_matches p e \<longrightarrow> length (path_prefix e) \<le> length (path_prefix b)))"

definition registry_ok :: "vfs_state \<Rightarrow> bool" where
  "registry_ok st \<longleftrightarrow> (\<forall>e \<in> occupied st. entry_ok e)"

text \<open>
  Scenario S4: a driver whose sector 0 carries the signature, entry 0 of type \<open>0x0B\<close>
  with start 2048 and count 1024, and no other entry; its device at address 0, just
  initialised by its driver.
\<close>

definition s4_sector :: "8 word list" where
  "s4_sector =
     replicate 446 0
     @ [0, 0, 0, 0, 0x0B, 0, 0, 0, 0, 8, 0, 0, 0, 4, 0, 0]
     @ replicate 48 0
     @ [0x55, 0xAA]"

definition s4_ops :: pico_blockdev_ops where
  "s4_ops =
     \<lparr>read_sector_op = Some (\<lambda>start cnt. if start = 0 \<and> cnt = 1 then (1, s4_sector) else (-5, [])),
      ioctl_op = None,
      destroy_op = True\<rparr>"

definition bd_empty :: bd_state where
  "bd_empty = \<lparr>heap = (\<lambda>a. None), next_addr = 1, alloc_plan = [], destroyed = [], bd_log = []\<rparr>"

definition s4_start :: bd_state where
  "s4_start = (case pico_blockdev_init (Some 0) (DriverOps s4_ops) bd_empty of Inr st \<Rightarrow> st | Inl f \<Rightarrow> bd_empty)"

text \<open>
  VFS scenarios, with \<open>PICO_VFS_BASE_PATH_MAX\<close> taken as 16: a backend whose \<open>open\<close>
  succeeds with local descriptor 7 and whose \<open>close\<close> succeeds; the state after
  \<open>pico_vfs_init\<close>; and that state after registering the backend at \<open>/dev\<close>.
\<close>

definition ops7 :: pico_vfs_ops where
  "ops7 = \<lparr>open_op = Some (\<lambda>path flags mode. (0, 7)), close_op = Some (\<lambda>fd. 0)\<rparr>"

definition vfs_booted :: vfs_state where
  "vfs_booted = snd (pico_vfs_init 16 True vfs_static_init)"

definition vfs_with_dev :: vfs_state where
  "vfs_with_dev = snd (pico_vfs_register 16 True ''/dev'' ops7 vfs_booted)"

text \<open>
  The specification's reading of \<open>seekdir\<close>: the location clamped into
  \<open>[0, VFS_MAX_COUNT)\<close>.
\<close>

definition spec_clamped_loc :: "int \<Rightarrow> int" where
  "spec_clamped_loc loc = max 0 (min (int VFS_MAX_COUNT - 1) loc)"

text \<open>
  A registry whose last slot holds a backend at \<open>/d\<close>, and a root-directory handle
  positioned on that slot.
\<close>

definition vfs_last_slot :: vfs_state where
  "vfs_last_slot =
     vfs_booted\<lparr>s_vfs := (s_vfs vfs_booted)
                  [3 := Some \<lparr>ops = ops7, path_prefix = ''/d'', path_prefix_len = 2, index = 3\<rparr>],
                s_vfs_count := 4\<rparr>"

definition dir_at_3 :: pico_vfs_internal_dir where
  "dir_at_3 = \<lparr>d_vfs_index = 0, d_name = [], d_off = 3\<rparr>"




text \<open>
  The shape of the two arrays: their sizes, the high-water mark within the registry, and
  every occupied slot lying below the mark and holding an entry that records its own slot.
\<close>

definition slots_ok :: "vfs_state \<Rightarrow> bool" where
  "slots_ok st \<longleftrightarrow>
     length (s_fd_table st) = MAX_FDS
     \<and> length (s_vfs st) = VFS_MAX_COUNT
     \<and> s_vfs_count st \<le> VFS_MAX_COUNT
     \<and> (\<forall>i < VFS_MAX_COUNT. \<forall>e. s_vfs st ! i = Some e \<longrightarrow> index e = i \<and> i < s_vfs_count st)"


text \<open>
  A variant of scenario S4 whose sector also has an entry 2, of type \<open>0x83\<close> with
  start 4096 and count 512.
\<close>

definition s4b_sector :: "8 word list" where
  "s4b_sector =
     replicate 446 0
     @ [0, 0, 0, 0, 0x0B, 0, 0, 0, 0, 8, 0, 0, 0, 4, 0, 0]
     @ replicate 16 0
     @ [0, 0, 0, 0, 0x83, 0, 0, 0, 0, 16, 0, 0, 0, 2, 0, 0]
     @ replicate 16 0
     @ [0x55, 0xAA]"

definition s4b_ops :: pico_blockdev_ops where
  "s4b_ops =
     \<lparr>read_sector_op = Some (\<lambda>start cnt. if start = 0 \<and> cnt = 1 then (1, s4b_sector) else (-5, [])),
      ioctl_op = None,
      destroy_op = True\<rparr>"

definition s4b_start :: bd_state where
  "s4b_start = (case pico_blockdev_init (Some 0) (DriverOps s4b_ops) bd_empty of Inr st \<Rightarrow> st | Inl f \<Rightarrow> bd_empty)"



section \<open>Evaluation of the scenarios\<close>

lemma ignored_neq [simp]:
  "n < 4294967295 \<Longrightarrow> n \<noteq> LEN_PATH_PREFIX_IGNORED"
  "n < 4294967295 \<Longrightarrow> LEN_PATH_PREFIX_IGNORED \<noteq> n"
  by (simp_all add: LEN_PATH_PREFIX_IGNORED_def)

lemma replicate_4: "replicate 4 x = [x, x, x, x]"
  by (simp add: eval_nat_numeral)

lemma vfs_booted_eq:
  "vfs_booted =
     \<lparr>s_fd_table = replicate 16 \<lparr>vfs_index = -1, local_fd = 0, permanent = False\<rparr>,
      s_vfs = [Some \<lparr>ops = rootops, path_prefix = [], path_prefix_len = 0, index = 0\<rparr>,
               None, None, None],
      s_vfs_count = 1,
      vfs_initialised = True,
      errno = 0,
      events = []\<rparr>"
  by (simp add: vfs_booted_def pico_vfs_init_def vfs_static_init_def pico_vfs_register_common_def
      MAX_FDS_def VFS_MAX_COUNT_def replicate_4)

lemma vfs_with_dev_eq:
  "vfs_with_dev =
     \<lparr>s_fd_table = replicate 16 \<lparr>vfs_index = -1, local_fd = 0, permanent = False\<rparr>,
      s_vfs = [Some \<lparr>ops = rootops, path_prefix = [], path_prefix_len = 0, index = 0\<rparr>,
               Some \<lparr>ops = ops7, path_prefix = ''/dev'', path_prefix_len = 4, index = 1\<rparr>,
               None, None],
      s_vfs_count = 2,
      vfs_initialised = True,
      errno = 0,
      events = [RegisterEvent ''/dev'']\<rparr>"
  by (simp add: vfs_with_dev_def vfs_booted_eq pico_vfs_register_def pico_vfs_register_common_def
      VFS_MAX_COUNT_def cstr_at_def EINVAL_def ENOMEM_def)

section \<open>Path resolution selects the longest matching prefix\<close>

lemma to_ssize_t_small: "n < 2 ^ 31 \<Longrightarrow> to_ssize_t n = int n"
  by (simp add: to_ssize_t_def)

lemma take_eq_prefix:
  "n = length q \<Longrightarrow> (\<not> length p < n \<and> take n p = take n q) \<longleftrightarrow> prefix q p"
proof
  assume a: "\<not> length p < n \<and> take n p = take n q"
  assume n: "n = length q"
  from a n have "take (length q) p = q" by simp
  then show "prefix q p" by (metis take_is_prefix)
next
  assume "prefix q p" and n: "n = length q"
  then obtain zs where "p = q @ zs" by (auto simp: prefix_def)
  then show "\<not> length p < n \<and> take n p = take n q" using n by simp
qed

lemma path_scan_step_inv:
  assumes "acc_inv p seen acc" and "\<And>e. slot = Some e \<Longrightarrow> entry_ok e"
  shows "acc_inv p (seen \<union> {e. slot = Some e}) (path_scan_step p slot acc)"
proof (cases slot)
  case None
  then show ?thesis using assms(1) by (simp add: path_scan_step_def)
next
  case (Some v)
  have ok: "entry_ok v" using assms(2) Some by simp
  have set_eq: "seen \<union> {e. slot = Some e} = insert v seen" using Some by auto
  show ?thesis
  proof (cases "path_prefix_len v = LEN_PATH_PREFIX_IGNORED")
    case True
    then have "\<not> spec_matches p v" by (simp add: spec_matches_def)
    then show ?thesis using assms(1) Some True
      by (auto simp: path_scan_step_def acc_inv_def set_eq split: option.splits)
  next
    case False
    then have len: "path_prefix_len v = length (path_prefix v)"
      and small: "length (path_prefix v) < 2 ^ 31"
      using ok by (auto simp: entry_ok_def)
    have pre: "(\<not> length p < path_prefix_len v
                \<and> take (path_prefix_len v) p = take (path_prefix_len v) (path_prefix v))
               \<longleftrightarrow> prefix (path_prefix v) p"
      using take_eq_prefix[OF len] .
    show ?thesis
    proof (cases "prefix (path_prefix v) p")
      case np: False
      then have "\<not> spec_matches p v" by (simp add: spec_matches_def)
      moreover have "path_scan_step p slot acc = acc"
        using np pre Some False by (auto simp: path_scan_step_def)
      ultimately show ?thesis using assms(1)
        by (auto simp: acc_inv_def set_eq split: option.splits)
    next
      case isp: True
      have cast: "to_ssize_t (path_prefix_len v) = int (length (path_prefix v))"
        using len small by (simp add: to_ssize_t_small)
      let ?bad = "length p > length (path_prefix v) \<and> p ! length (path_prefix v) \<noteq> CHR ''/''"
      have step: "path_scan_step p slot acc =
          (if path_prefix v = [] \<and> fst acc = None then (Some v, snd acc)
           else if ?bad then acc
           else if snd acc < int (length (path_prefix v)) then (Some v, int (length (path_prefix v)))
           else acc)"
        using Some False isp pre cast len by (simp add: path_scan_step_def Option.is_none_def)
      have m: "spec_matches p v \<longleftrightarrow> (path_prefix v = [] \<or> \<not> ?bad)"
        using False isp by (auto simp: spec_matches_def)
      show ?thesis
      proof (cases "fst acc")
        case None
        then have a: "snd acc = -1" "\<forall>e \<in> seen. \<not> spec_matches p e"
          using assms(1) by (auto simp: acc_inv_def)
        show ?thesis
          using None a m unfolding step set_eq acc_inv_def by auto
      next
        case (Some b)
        then have b: "b \<in> seen" "spec_matches p b"
          "snd acc = int (length (path_prefix b)) \<or> snd acc = -1 \<and> path_prefix b = []"
          "\<forall>e \<in> seen. spec_matches p e \<longrightarrow> length (path_prefix e) \<le> length (path_prefix b)"
          using assms(1) by (auto simp: acc_inv_def)
        show ?thesis
        proof (cases "?bad")
          case True
          then show ?thesis using Some b m unfolding step set_eq acc_inv_def by auto
        next
          case nb: False
          show ?thesis
          proof (cases "snd acc < int (length (path_prefix v))")
            case True
            then have "length (path_prefix b) \<le> length (path_prefix v)" using b(3) by auto
            then show ?thesis using Some b nb True m unfolding step set_eq acc_inv_def
              by (auto intro: order_trans)
          next
            case nl: False
            then have "length (path_prefix v) \<le> length (path_prefix b)" using b(3) by auto
            then show ?thesis using Some b nb nl m unfolding step set_eq acc_inv_def
              by auto
          qed
        qed
      qed
    qed
  qed
qed

lemma path_scan_inv:
  "acc_inv p seen acc \<Longrightarrow> (\<forall>e. Some e \<in> set slots \<longrightarrow> entry_ok e)
   \<Longrightarrow> acc_inv p (seen \<union> {e. Some e \<in> set slots}) (path_scan p slots acc)"
proof (induction slots arbitrary: seen acc)
  case Nil
  then show ?case by simp
next
  case (Cons slot rest)
  have "acc_inv p (seen \<union> {e. slot = Some e}) (path_scan_step p slot acc)"
    using Cons.prems by (intro path_scan_step_inv) auto
  then have "acc_inv p ((seen \<union> {e. slot = Some e}) \<union> {e. Some e \<in> set rest})
               (path_scan p rest (path_scan_step p slot acc))"
    using Cons.prems by (intro Cons.IH) auto
  moreover have "(seen \<union> {e. slot = Some e}) \<union> {e. Some e \<in> set rest}
                 = seen \<union> {e. Some e \<in> set (slot # rest)}"
    by auto
  ultimately show ?case by simp
qed

text \<open>
  C1. In every registry state whose entries are as registration builds them, and for
  every path \<open>p\<close>: if resolution yields no backend then no occupied entry matches \<open>p\<close>
  under the specification's rule (prefix of \<open>p\<close>, not ignored, a non-empty prefix
  strictly shorter than \<open>p\<close> followed by a slash); if it yields an entry, that entry is
  occupied, matches, and no occupied matching entry has a longer prefix. Hence the
  empty-prefix backend is chosen only when no longer prefix matches, and an entry with
  the ignored sentinel is never chosen.
\<close>

theorem resolve_longest_prefix:
  assumes "registry_ok st"
  shows "case pico_vfs_get_vfs_entry_for_path st p of
           None \<Rightarrow> \<forall>e \<in> occupied st. \<not> spec_matches p e
         | Some b \<Rightarrow> b \<in> occupied st \<and> spec_matches p b
              \<and> (\<forall>e \<in> occupied st. spec_matches p e
                     \<longrightarrow> length (path_prefix e) \<le> length (path_prefix b))"
proof -
  have "acc_inv p {} (None, -1)" by (simp add: acc_inv_def)
  then have "acc_inv p ({} \<union> {e. Some e \<in> set (take (s_vfs_count st) (s_vfs st))})
               (path_scan p (take (s_vfs_count st) (s_vfs st)) (None, -1))"
    using assms by (intro path_scan_inv) (auto simp: registry_ok_def occupied_def)
  then show ?thesis
    by (auto simp: acc_inv_def pico_vfs_get_vfs_entry_for_path_def occupied_def split: option.splits)
qed

lemma registry_ok_vfs_with_dev: "registry_ok vfs_with_dev"
  by (auto simp: registry_ok_def occupied_def vfs_with_dev_eq entry_ok_def)

lemma resolve_dev_x:
  "pico_vfs_get_vfs_entry_for_path vfs_with_dev ''/dev/x''
     = Some \<lparr>ops = ops7, path_prefix = ''/dev'', path_prefix_len = 4, index = 1\<rparr>"
  by (simp add: pico_vfs_get_vfs_entry_for_path_def vfs_with_dev_eq path_scan_step_def
      to_ssize_t_def)

lemma resolve_devices:
  "pico_vfs_get_vfs_entry_for_path vfs_with_dev ''/devices''
     = Some \<lparr>ops = rootops, path_prefix = [], path_prefix_len = 0, index = 0\<rparr>"
  by (simp add: pico_vfs_get_vfs_entry_for_path_def vfs_with_dev_eq path_scan_step_def
      to_ssize_t_def)

theorem resolve_longest_prefix_witness:
  "registry_ok vfs_with_dev
   \<and> pico_vfs_get_vfs_entry_for_path vfs_with_dev ''/dev/x''
       = Some \<lparr>ops = ops7, path_prefix = ''/dev'', path_prefix_len = 4, index = 1\<rparr>
   \<and> \<lparr>ops = ops7, path_prefix = ''/dev'', path_prefix_len = 4, index = 1\<rparr> \<in> occupied vfs_with_dev
   \<and> spec_matches ''/dev/x'' \<lparr>ops = ops7, path_prefix = ''/dev'', path_prefix_len = 4, index = 1\<rparr>"
  using resolve_longest_prefix [OF registry_ok_vfs_with_dev, of "''/dev/x''"]
  by (simp add: registry_ok_vfs_with_dev resolve_dev_x)

section \<open>Registration and its notification\<close>

lemma register_common_result:
  "fst (pico_vfs_register_common pmax alloc_ok base_path len vops st) \<in> {0, EINVAL, ENOMEM}"
  by (simp add: pico_vfs_register_common_def Let_def)

lemma register_common_not_negative:
  "\<not> fst (pico_vfs_register_common pmax alloc_ok base_path len vops st) < 0"
  using register_common_result [of pmax alloc_ok base_path len vops st]
  by (auto simp: EINVAL_def ENOMEM_def)

text \<open>
  C2. The claim holds on success; on failure the code does not do what it says.
  \<open>pico_vfs_register_common\<close> reports failure with a positive error number, so the
  test \<open>r < 0\<close> of \<open>pico_vfs_register\<close> never fires: registering the invalid prefix
  \<open>x\<close> fails with \<open>EINVAL\<close> inside, yet \<open>pico_vfs_register\<close> returns the untouched
  local \<open>-1\<close> and has emitted the registration notification for \<open>x\<close>.
\<close>

theorem register_failure_emits_event:
  "pico_vfs_register_common 16 True ''x'' (length ''x'') ops7 vfs_booted = (EINVAL, None, vfs_booted)
   \<and> pico_vfs_register 16 True ''x'' ops7 vfs_booted
       = (-1, vfs_booted\<lparr>events := [RegisterEvent ''x'']\<rparr>)"
  by (simp add: pico_vfs_register_def pico_vfs_register_common_def EINVAL_def vfs_booted_eq)

section \<open>The root directory backend: seekdir and telldir\<close>

text \<open>
  C8, as stated, fails: \<open>seekdir\<close> with a location outside \<open>[0, VFS_MAX_COUNT)\<close> leaves
  the offset alone instead of clamping it. On a handle at offset 1, \<open>seekdir 10\<close> leaves
  offset 1, while the clamped location would be 3.
\<close>

theorem seekdir_not_clamped:
  "d_off (pico_vfs_root_seekdir \<lparr>d_vfs_index = 0, d_name = [], d_off = 1\<rparr> 10) = 1
   \<and> spec_clamped_loc 10 = 3"
  by (simp add: pico_vfs_root_seekdir_def spec_clamped_loc_def VFS_MAX_COUNT_def)

text \<open>
  C8, amended. \<open>telldir\<close> returns the handle's offset; \<open>seekdir loc\<close> sets the offset
  to \<open>loc\<close> when \<open>0 \<le> loc < VFS_MAX_COUNT\<close> and leaves the handle unchanged otherwise.
  So its result is the clamped location only when \<open>loc\<close> is in range or the old offset
  already was that value.
\<close>

theorem seekdir_sets_or_ignores:
  "pico_vfs_root_telldir dir = int (d_off dir)
   \<and> (0 \<le> loc \<and> loc < int VFS_MAX_COUNT \<longrightarrow> d_off (pico_vfs_root_seekdir dir loc) = nat loc)
   \<and> (loc < 0 \<or> int VFS_MAX_COUNT \<le> loc \<longrightarrow> pico_vfs_root_seekdir dir loc = dir)
   \<and> (d_off (pico_vfs_root_seekdir dir loc) = nat (spec_clamped_loc loc)
        \<longleftrightarrow> (0 \<le> loc \<and> loc < int VFS_MAX_COUNT) \<or> d_off dir = nat (spec_clamped_loc loc))"
proof (cases "0 \<le> loc \<and> loc < int VFS_MAX_COUNT")
  case True
  then have "spec_clamped_loc loc = loc" by (auto simp: spec_clamped_loc_def)
  then show ?thesis
    using True by (simp add: pico_vfs_root_telldir_def pico_vfs_root_seekdir_def)
next
  case False
  then have "pico_vfs_root_seekdir dir loc = dir" by (auto simp: pico_vfs_root_seekdir_def)
  then show ?thesis using False by (auto simp: pico_vfs_root_telldir_def)
qed

theorem seekdir_sets_or_ignores_witness:
  "pico_vfs_root_telldir dir_at_3 = 3
   \<and> d_off (pico_vfs_root_seekdir dir_at_3 2) = 2
   \<and> d_off (pico_vfs_root_seekdir dir_at_3 (-1)) = 3
   \<and> d_off (pico_vfs_root_seekdir dir_at_3 4) = 3"
  using seekdir_sets_or_ignores [of dir_at_3 2] seekdir_sets_or_ignores [of dir_at_3 "-1"]
    seekdir_sets_or_ignores [of dir_at_3 4]
  by (simp add: dir_at_3_def VFS_MAX_COUNT_def)

text \<open>
  C9. For every handle state of the root directory backend, whatever its offset (also
  \<open>VFS_MAX_COUNT\<close>, which \<open>readdir\<close> stores after reporting the last slot),
  \<open>seekdir\<close> to the location \<open>telldir\<close> returns leaves the handle unchanged.
\<close>

theorem seekdir_telldir_noop:
  "pico_vfs_root_seekdir dir (pico_vfs_root_telldir dir) = dir"
  by (simp add: pico_vfs_root_seekdir_def pico_vfs_root_telldir_def)

lemma readdir_past_last_slot:
  "pico_vfs_root_readdir vfs_last_slot dir_at_3
     = (Some ''d'', \<lparr>d_vfs_index = 0, d_name = ''d'', d_off = 4\<rparr>)"
  by (simp add: pico_vfs_root_readdir_def vfs_last_slot_def vfs_booted_eq dir_at_3_def
      VFS_MAX_COUNT_def cstr_at_def Let_def)

theorem seekdir_telldir_noop_witness:
  "d_off (snd (pico_vfs_root_readdir vfs_last_slot dir_at_3)) = 4
   \<and> pico_vfs_root_seekdir (snd (pico_vfs_root_readdir vfs_last_slot dir_at_3))
        (pico_vfs_root_telldir (snd (pico_vfs_root_readdir vfs_last_slot dir_at_3)))
       = snd (pico_vfs_root_readdir vfs_last_slot dir_at_3)"
  using seekdir_telldir_noop [of "snd (pico_vfs_root_readdir vfs_last_slot dir_at_3)"]
  by (simp add: readdir_past_last_slot)

section \<open>Descriptor ranges\<close>

text \<open>
  C10. The claim is what the table needs, and the code misses it by one: validation
  rejects \<open>min_fd\<close> and \<open>max_fd\<close> only above \<open>MAX_FDS\<close>, so the range \<open>[16, 16]\<close>
  passes, and the reservation loop then accesses row 16 of the 16-row table.
\<close>

theorem fd_range_touches_row_16:
  "\<not> fd_range_args_rejected 16 16
   \<and> length (s_fd_table vfs_booted) = MAX_FDS
   \<and> pico_vfs_register_fd_range 16 True ops7 16 16 vfs_booted = Inl (OutOfBounds 16)"
  by (simp add: fd_range_args_rejected_def MAX_FDS_def pico_vfs_register_fd_range_def
      pico_vfs_register_common_def pico_vfs_register_fd_range_for_vfs_index_def vfs_booted_eq
      VFS_MAX_COUNT_def)

section \<open>Opening a file\<close>






lemma dev_entry_ops: "open_op ops7 = Some (\<lambda>path flags mode. (0, 7))" "close_op ops7 = Some (\<lambda>fd. 0)"
  by (simp_all add: ops7_def)



section \<open>The descriptor-table invariant\<close>















lemma find_free_slot_bounds:
  "k \<le> find_free_slot slots k \<and> find_free_slot slots k \<le> k + length slots"
proof (induction slots arbitrary: k)
  case Nil
  then show ?case by simp
next
  case (Cons s slots)
  show ?case
  proof (cases s)
    case None
    then show ?thesis by simp
  next
    case (Some e)
    then show ?thesis using Cons.IH [of "Suc k"] by simp
  qed
qed

lemma find_free_slot_free:
  "find_free_slot slots k < k + length slots \<Longrightarrow> slots ! (find_free_slot slots k - k) = None"
proof (induction slots arbitrary: k)
  case Nil
  then show ?case by simp
next
  case (Cons s slots)
  show ?case
  proof (cases s)
    case None
    then show ?thesis by simp
  next
    case (Some e)
    have b: "Suc k \<le> find_free_slot slots (Suc k)" using find_free_slot_bounds [of "Suc k" slots] by simp
    from Cons.prems Some have "find_free_slot slots (Suc k) < Suc k + length slots" by simp
    then have "slots ! (find_free_slot slots (Suc k) - Suc k) = None" by (rule Cons.IH)
    moreover have "find_free_slot slots (Suc k) - k = Suc (find_free_slot slots (Suc k) - Suc k)"
      using b by arith
    ultimately show ?thesis using Some by simp
  qed
qed

text \<open>What a successful \<open>pico_vfs_register_common\<close> does to the state.\<close>

lemma register_common_effect:
  assumes ok: "slots_ok st"
    and r: "pico_vfs_register_common pmax alloc_ok base_path len vops st = (ret, out, st')"
  shows "s_fd_table st' = s_fd_table st \<and> slots_ok st'
     \<and> (\<forall>i. i < s_vfs_count st \<and> s_vfs st ! i \<noteq> None \<longrightarrow> i < s_vfs_count st' \<and> s_vfs st' ! i \<noteq> None)
     \<and> (ret = 0 \<longrightarrow> (\<exists>idx. out = Some idx \<and> idx < s_vfs_count st' \<and> s_vfs st' ! idx \<noteq> None))
     \<and> (ret \<noteq> 0 \<longrightarrow> st' = st \<and> out = None)"
proof -
  let ?idx = "find_free_slot (take (s_vfs_count st) (s_vfs st)) 0"
  have cnt: "s_vfs_count st \<le> VFS_MAX_COUNT" "length (s_vfs st) = VFS_MAX_COUNT"
    using ok by (auto simp: slots_ok_def)
  have lt: "length (take (s_vfs_count st) (s_vfs st)) = s_vfs_count st" using cnt by simp
  have le: "?idx \<le> s_vfs_count st"
    using find_free_slot_bounds [of 0 "take (s_vfs_count st) (s_vfs st)"] lt by simp
  have free: "?idx < s_vfs_count st \<Longrightarrow> s_vfs st ! ?idx = None"
    using find_free_slot_free [of "take (s_vfs_count st) (s_vfs st)" 0] lt by simp
  show ?thesis
  proof (cases "ret = 0")
    case False
    then have "st' = st \<and> out = None"
      using r by (auto simp: pico_vfs_register_common_def Let_def split: if_splits)
    then show ?thesis using ok False by simp
  next
    case True
    let ?entry = "\<lparr>ops = vops,
                   path_prefix = (if len \<noteq> LEN_PATH_PREFIX_IGNORED then base_path else []),
                   path_prefix_len = len, index = ?idx\<rparr>"
    have nz: "EINVAL \<noteq> 0" "ENOMEM \<noteq> 0" by (simp_all add: EINVAL_def ENOMEM_def)
    have room: "\<not> (?idx = s_vfs_count st \<and> s_vfs_count st \<ge> VFS_MAX_COUNT)"
      and st': "st' = st\<lparr>s_vfs := (s_vfs st)[?idx := Some ?entry],
                  s_vfs_count := (if ?idx = s_vfs_count st then s_vfs_count st + 1 else s_vfs_count st)\<rparr>"
      and out: "out = Some ?idx"
      using r True nz by (auto simp: pico_vfs_register_common_def Let_def split: if_splits)
    have idx_lt: "?idx < VFS_MAX_COUNT" using room le cnt by auto
    have c': "s_vfs_count st' = (if ?idx = s_vfs_count st then s_vfs_count st + 1 else s_vfs_count st)"
      and v': "s_vfs st' = (s_vfs st)[?idx := Some ?entry]"
      and t': "s_fd_table st' = s_fd_table st"
      using st' by simp_all
    have idx_c: "?idx < s_vfs_count st'" using c' le by auto
    have cnt': "s_vfs_count st' \<le> VFS_MAX_COUNT" using c' idx_lt cnt by auto
    have slots: "slots_ok st'"
      unfolding slots_ok_def
    proof (intro conjI allI impI)
      show "length (s_fd_table st') = MAX_FDS" using ok t' by (simp add: slots_ok_def)
      show "length (s_vfs st') = VFS_MAX_COUNT" using cnt v' by simp
      show "s_vfs_count st' \<le> VFS_MAX_COUNT" by (rule cnt')
    next
      fix i e assume i: "i < VFS_MAX_COUNT" and e: "s_vfs st' ! i = Some e"
      show "index e = i"
      proof (cases "i = ?idx")
        case True
        have "s_vfs st' ! ?idx = Some ?entry" using v' idx_lt cnt by simp
        with e True have "e = ?entry" by simp
        then show ?thesis using True by simp
      next
        case False
        then have "s_vfs st ! i = Some e" using e v' by simp
        then show ?thesis using ok i by (auto simp: slots_ok_def)
      qed
      show "i < s_vfs_count st'"
      proof (cases "i = ?idx")
        case True
        then show ?thesis using idx_c by simp
      next
        case False
        then have "s_vfs st ! i = Some e" using e v' by simp
        then have "i < s_vfs_count st" using ok i by (auto simp: slots_ok_def)
        then show ?thesis using c' by auto
      qed
    qed
    have keep: "\<forall>i. i < s_vfs_count st \<and> s_vfs st ! i \<noteq> None \<longrightarrow> i < s_vfs_count st' \<and> s_vfs st' ! i \<noteq> None"
    proof (intro allI impI)
      fix i assume a: "i < s_vfs_count st \<and> s_vfs st ! i \<noteq> None"
      then have "i \<noteq> ?idx" using free by auto
      then have "s_vfs st' ! i = s_vfs st ! i" using v' by simp
      then show "i < s_vfs_count st' \<and> s_vfs st' ! i \<noteq> None" using a c' by auto
    qed
    have new: "s_vfs st' ! ?idx \<noteq> None" using v' idx_lt cnt by simp
    show ?thesis using t' slots keep True out idx_c new by blast
  qed
qed















section \<open>Registration: what every call does\<close>

text \<open>
  The notification does not depend on the outcome at all: every call of
  \<open>pico_vfs_register\<close> emits it.
\<close>

lemma register_always_emits_event:
  "events (snd (pico_vfs_register pmax alloc_ok base_path vops st)) = events st @ [RegisterEvent base_path]"
proof -
  obtain r out st1 where c: "pico_vfs_register_common pmax alloc_ok base_path (length base_path) vops st = (r, out, st1)"
    by (cases "pico_vfs_register_common pmax alloc_ok base_path (length base_path) vops st") auto
  have "\<not> r < 0" using register_common_not_negative [of pmax alloc_ok base_path "length base_path" vops st] c by simp
  moreover have "events st1 = events st"
    using c by (auto simp: pico_vfs_register_common_def Let_def split: if_splits)
  ultimately show ?thesis using c by (simp add: pico_vfs_register_def Let_def)
qed

lemma register_common_occupied:
  assumes ok: "slots_ok st"
    and r: "pico_vfs_register_common pmax alloc_ok base_path len vops st = (0, out, st')"
    and x: "x \<in> occupied st'"
  shows "x \<in> occupied st
     \<or> (path_prefix_len x = len \<and> len \<noteq> LEN_PATH_PREFIX_IGNORED \<and> path_prefix x = base_path \<and> len \<le> pmax)
     \<or> path_prefix_len x = LEN_PATH_PREFIX_IGNORED"
proof -
  let ?idx = "find_free_slot (take (s_vfs_count st) (s_vfs st)) 0"
  let ?entry = "\<lparr>ops = vops,
                 path_prefix = (if len \<noteq> LEN_PATH_PREFIX_IGNORED then base_path else []),
                 path_prefix_len = len, index = ?idx\<rparr>"
  have nz: "EINVAL \<noteq> 0" "ENOMEM \<noteq> 0" by (simp_all add: EINVAL_def ENOMEM_def)
  have st': "st' = st\<lparr>s_vfs := (s_vfs st)[?idx := Some ?entry],
                  s_vfs_count := (if ?idx = s_vfs_count st then s_vfs_count st + 1 else s_vfs_count st)\<rparr>"
    and valid: "len \<noteq> LEN_PATH_PREFIX_IGNORED \<longrightarrow> len \<le> pmax"
    using r nz by (auto simp: pico_vfs_register_common_def Let_def split: if_splits)
  have v': "s_vfs st' = (s_vfs st)[?idx := Some ?entry]"
    and c': "s_vfs_count st' = (if ?idx = s_vfs_count st then s_vfs_count st + 1 else s_vfs_count st)"
    using st' by simp_all
  have cnt: "s_vfs_count st \<le> VFS_MAX_COUNT" "length (s_vfs st) = VFS_MAX_COUNT"
    using ok by (auto simp: slots_ok_def)
  from x obtain j where j: "j < length (take (s_vfs_count st') (s_vfs st'))"
    "take (s_vfs_count st') (s_vfs st') ! j = Some x"
    by (auto simp: occupied_def in_set_conv_nth)
  then have jc: "j < s_vfs_count st'" "j < length (s_vfs st)" and xj: "s_vfs st' ! j = Some x"
    using v' by auto
  show ?thesis
  proof (cases "j = ?idx")
    case True
    then have "x = ?entry" using xj v' jc by simp
    then show ?thesis using valid by (cases "len = LEN_PATH_PREFIX_IGNORED") simp_all
  next
    case False
    then have old: "s_vfs st ! j = Some x" using xj v' by simp
    have "j < s_vfs_count st" using jc(1) c' False by (auto split: if_splits)
    then have "take (s_vfs_count st) (s_vfs st) ! j = Some x" "j < length (take (s_vfs_count st) (s_vfs st))"
      using old jc(2) by simp_all
    then have "Some x \<in> set (take (s_vfs_count st) (s_vfs st))" by (metis nth_mem)
    then show ?thesis by (simp add: occupied_def)
  qed
qed

text \<open>
  The hypothesis of the resolution theorem is an invariant of the registry: it holds
  before \<open>pico_vfs_init\<close>, and registration through \<open>pico_vfs_register\<close> (with
  \<open>PICO_VFS_BASE_PATH_MAX\<close> below \<open>2 ^ 31\<close>) and unregistration keep it.
\<close>

lemma registry_ok_static: "registry_ok vfs_static_init"
  by (simp add: registry_ok_def occupied_def vfs_static_init_def)

lemma register_keeps_registry_ok:
  assumes "slots_ok st" "registry_ok st" "pmax < 2 ^ 31"
  shows "registry_ok (snd (pico_vfs_register pmax alloc_ok base_path vops st))"
proof -
  obtain r out st1 where c: "pico_vfs_register_common pmax alloc_ok base_path (length base_path) vops st = (r, out, st1)"
    by (cases "pico_vfs_register_common pmax alloc_ok base_path (length base_path) vops st") auto
  have nn: "\<not> r < 0"
    using register_common_not_negative [of pmax alloc_ok base_path "length base_path" vops st] c by simp
  have occ: "occupied (snd (pico_vfs_register pmax alloc_ok base_path vops st)) = occupied st1"
    using c nn by (simp add: pico_vfs_register_def Let_def occupied_def)
  have "registry_ok st1"
  proof (cases "r = 0")
    case False
    then have "st1 = st" using register_common_effect [OF assms(1) c] by simp
    then show ?thesis using assms(2) by simp
  next
    case True
    show ?thesis
      unfolding registry_ok_def
    proof
      fix x assume "x \<in> occupied st1"
      then consider "x \<in> occupied st"
        | "path_prefix_len x = length base_path" "path_prefix x = base_path" "length base_path \<le> pmax"
        | "path_prefix_len x = LEN_PATH_PREFIX_IGNORED"
        using register_common_occupied [OF assms(1) c [unfolded True]] by blast
      then show "entry_ok x"
      proof cases
        case 1
        then show ?thesis using assms(2) by (simp add: registry_ok_def)
      next
        case 2
        then show ?thesis using assms(3) by (simp add: entry_ok_def)
      next
        case 3
        then show ?thesis by (simp add: entry_ok_def)
      qed
    qed
  qed
  then show ?thesis using occ by (simp add: registry_ok_def)
qed

lemma unregister_keeps_registry_ok:
  assumes "registry_ok st" "pico_vfs_unregister i st = Inr (r, st')"
  shows "registry_ok st'"
proof -
  have "occupied st' \<subseteq> occupied st"
  proof
    fix x assume "x \<in> occupied st'"
    then have m: "Some x \<in> set (take (s_vfs_count st') (s_vfs st'))" by (simp add: occupied_def)
    have "st' = st \<or> (s_vfs st' = (s_vfs st)[nat i := None] \<and> s_vfs_count st' = s_vfs_count st)"
      using assms(2) by (auto simp: pico_vfs_unregister_def split: if_splits option.splits)
    then show "x \<in> occupied st"
    proof
      assume "st' = st"
      then show ?thesis using m by (simp add: occupied_def)
    next
      assume a: "s_vfs st' = (s_vfs st)[nat i := None] \<and> s_vfs_count st' = s_vfs_count st"
      then have "Some x \<in> set ((take (s_vfs_count st) (s_vfs st))[nat i := None])"
        using m by (simp add: take_update_swap)
      then have "Some x \<in> insert None (set (take (s_vfs_count st) (s_vfs st)))"
        using set_update_subset_insert by fastforce
      then show ?thesis by (simp add: occupied_def)
    qed
  qed
  then show ?thesis using assms(1) by (auto simp: registry_ok_def)
qed

section \<open>Registering a device with one partition\<close>

lemma le32_2048: "pico_blockdev_extractle32 src off = 2048"
  if "src ! off = 0" "src ! (off + 1) = 8" "src ! (off + 2) = 0" "src ! (off + 3) = 0"
  using that by (simp add: pico_blockdev_extractle32_def)

lemma le32_1024: "pico_blockdev_extractle32 src off = 1024"
  if "src ! off = 0" "src ! (off + 1) = 4" "src ! (off + 2) = 0" "src ! (off + 3) = 0"
  using that by (simp add: pico_blockdev_extractle32_def)

lemma check_empty_entry:
  "source ! (i * 16 + 4) = 0 \<Longrightarrow> pico_blockdev_check_msdos_partition (Suc n) dev source i st = Inr st"
  by simp

text \<open>
  C6, as stated, fails: it constrains entries 0 and 1 only. A sector that meets every
  condition of the claim and also has an entry 2 of type \<open>0x83\<close> leaves the parent with
  two children.
\<close>

theorem register_extra_entry_two_children:
  "s4b_sector ! 510 = 0x55 \<and> s4b_sector ! 511 = 0xAA
   \<and> s4b_sector ! 450 = 0x0B
   \<and> pico_blockdev_extractle32 s4b_sector 454 = 2048
   \<and> pico_blockdev_extractle32 s4b_sector 458 = 1024
   \<and> s4b_sector ! 466 = 0x00
   \<and> (case pico_blockdev_register 6 0 s4b_start of
        Inl f \<Rightarrow> False
      | Inr (r, st) \<Rightarrow> r = 0 \<and> map_option children (heap st 0) = Some [3, 1])"
  by code_simp

text \<open>
  C6, amended. Let a root device, just initialised (one reference, no parent, no
  children), read sector 0 as one sector with the signature \<open>0x55 0xAA\<close>, entry 0 of type
  \<open>0x0B\<close> with little-endian start 2048 and count 1024, and entries 1, 2 and 3 of type
  \<open>0x00\<close>; let the allocations succeed. Then \<open>pico_blockdev_register\<close> returns 0 (for any
  recursion bound from 6 on), the device has exactly one child, the child is a partition
  device with the device as parent, start sector 2048 and 1024 sectors, its
  \<open>BLKGETSIZE\<close> ioctl returns 0 and stores 1024, and processing any of the entries of
  type \<open>0x00\<close> changes nothing.
\<close>

theorem register_single_partition:
  assumes dev: "heap st dev = Some \<lparr>refcnt = 1, bd_ops = DriverOps dops, parent = None, children = [],
                                   start_sector = s0, num_sectors = n0\<rparr>"
    and rd: "read_sector_op dops = Some rf" "rf 0 1 = (1, sect)"
    and len: "length sect = 512"
    and sig: "sect ! 510 = 0x55" "sect ! 511 = 0xAA"
    and e0: "sect ! 450 = 0x0B"
      "sect ! 454 = 0" "sect ! 455 = 8" "sect ! 456 = 0" "sect ! 457 = 0"
      "sect ! 458 = 0" "sect ! 459 = 4" "sect ! 460 = 0" "sect ! 461 = 0"
    and e1: "sect ! 466 = 0" and e2: "sect ! 482 = 0" and e3: "sect ! 498 = 0"
    and alloc: "alloc_plan st = []" and fresh: "dev < next_addr st"
  shows "case pico_blockdev_register (Suc (Suc (Suc (Suc (Suc (Suc k)))))) dev st of
           Inl f \<Rightarrow> False
         | Inr (r, st') \<Rightarrow>
             r = 0
             \<and> map_option children (heap st' dev) = Some [next_addr st]
             \<and> map_option bd_ops (heap st' (next_addr st)) = Some PartOps
             \<and> map_option parent (heap st' (next_addr st)) = Some (Some dev)
             \<and> map_option start_sector (heap st' (next_addr st)) = Some 2048
             \<and> map_option num_sectors (heap st' (next_addr st)) = Some 1024
             \<and> pico_blockdev_ioctl (Suc k) st' (next_addr st) PICO_IOCTL_BLKGETSIZE = Inr (0, Some 1024)
             \<and> (\<forall>i \<in> {1, 2, 3}.
                   pico_blockdev_check_msdos_partition (Suc k) dev (drop 0x1be sect) i st' = Inr st')"
proof -
  let ?src = "drop 0x1be sect"
  have b: "?src ! (0 * 16 + 4) = 0x0B" "?src ! (1 * 16 + 4) = 0" "?src ! (2 * 16 + 4) = 0" "?src ! (3 * 16 + 4) = 0"
    using len e0(1) e1 e2 e3 by simp_all
  have start: "pico_blockdev_extractle32 ?src (0 * 16 + 8) = 2048"
    by (rule le32_2048) (use len e0 in simp_all)
  have size: "pico_blockdev_extractle32 ?src (0 * 16 + 12) = 1024"
    by (rule le32_1024) (use len e0 in simp_all)
  have ne: "next_addr st \<noteq> dev" using fresh by simp
  show ?thesis
    using dev rd sig b start size alloc ne
    by (simp add: pico_blockdev_read_sector_def malloc_def pico_blockdev_init_def update_dev_def
        pico_blockdev_add_child_def pico_object_ref_def pico_blockdev_ioctl_def Let_def)
qed


lemma s4_start_dev:
  "heap s4_start 0 = Some \<lparr>refcnt = 1, bd_ops = DriverOps s4_ops, parent = None, children = [],
                            start_sector = 0, num_sectors = 0\<rparr>"
  "alloc_plan s4_start = []" "next_addr s4_start = 1"
  by (simp_all add: s4_start_def pico_blockdev_init_def bd_empty_def)

lemma s4_sector_bytes:
  "length s4_sector = 512"
  "s4_sector ! 510 = 0x55" "s4_sector ! 511 = 0xAA" "s4_sector ! 450 = 0x0B"
  "s4_sector ! 454 = 0" "s4_sector ! 455 = 8" "s4_sector ! 456 = 0" "s4_sector ! 457 = 0"
  "s4_sector ! 458 = 0" "s4_sector ! 459 = 4" "s4_sector ! 460 = 0" "s4_sector ! 461 = 0"
  "s4_sector ! 466 = 0" "s4_sector ! 482 = 0" "s4_sector ! 498 = 0"
  by (simp_all add: s4_sector_def nth_append)

theorem register_single_partition_witness:
  "case pico_blockdev_register (Suc (Suc (Suc (Suc (Suc (Suc 0)))))) 0 s4_start of
     Inl f \<Rightarrow> False
   | Inr (r, st') \<Rightarrow>
       r = 0
       \<and> map_option children (heap st' 0) = Some [1]
       \<and> map_option bd_ops (heap st' 1) = Some PartOps
       \<and> map_option start_sector (heap st' 1) = Some 2048
       \<and> map_option num_sectors (heap st' 1) = Some 1024
       \<and> pico_blockdev_ioctl (Suc 0) st' 1 PICO_IOCTL_BLKGETSIZE = Inr (0, Some 1024)"
proof -
  have rd: "read_sector_op s4_ops = Some (\<lambda>start cnt. if start = 0 \<and> cnt = 1 then (1, s4_sector) else (-5, []))"
    by (simp add: s4_ops_def)
  have rf: "(\<lambda>start cnt. if start = (0::32 word) \<and> cnt = (1::nat) then (1::int, s4_sector) else (-5, [])) 0 1 = (1, s4_sector)"
    by simp
  have fresh: "0 < next_addr s4_start" by (simp add: s4_start_dev)
  note t = register_single_partition [OF s4_start_dev(1) rd rf s4_sector_bytes s4_start_dev(2) fresh,
      of 0, unfolded s4_start_dev(3)]
  show ?thesis
  proof (cases "pico_blockdev_register (Suc (Suc (Suc (Suc (Suc (Suc 0)))))) 0 s4_start")
    case (Inl f)
    with t show ?thesis by (simp only: sum.case)
  next
    case (Inr p)
    obtain r st' where p: "p = (r, st')" by (cases p)
    from t show ?thesis unfolding Inr p by (simp only: sum.case prod.case)
  qed
qed

section \<open>Unregistering a device tree\<close>

text \<open>
  C4. The code does not do what the claim says. After scenario S4 is registered the root
  (address 0) has the partition child (address 1), each holding one reference.
  \<open>pico_blockdev_unregister\<close> on the root unregisters the child, then drops a reference
  of the root itself, never of the child: the root's destructor runs once, the child's
  never, and the child stays allocated with its reference count 1.
\<close>

theorem unregister_skips_child_destructors:
  "(case pico_blockdev_register 6 0 s4_start of
      Inl f \<Rightarrow> False
    | Inr (r, st) \<Rightarrow>
        map_option children (heap st 0) = Some [1]
        \<and> map_option parent (heap st 1) = Some (Some 0)
        \<and> map_option refcnt (heap st 0) = Some 1
        \<and> map_option refcnt (heap st 1) = Some 1
        \<and> destroyed st = []
        \<and> (case pico_blockdev_unregister 3 (Some 0) st of
              Inl f \<Rightarrow> False
            | Inr st' \<Rightarrow>
                destroyed st' = [0]
                \<and> count_list (destroyed st') 1 = 0
                \<and> map_option refcnt (heap st' 1) = Some 1
                \<and> map_option children (heap st' 1) = Some []))"
  by code_simp

section \<open>Failures during the partition scan\<close>

text \<open>
  C7. The claim holds when adding the child fails and not when allocating it fails. On
  the sector with entries 0 and 2: if \<open>malloc\<close> fails for the partition object of entry 0,
  \<open>pico_blockdev_init\<close> is called on the null pointer and the scan ends there; if the
  object is allocated and the link of \<open>pico_blockdev_add_child\<close> is not, the error is
  logged and entry 2 still gets its child.
\<close>

theorem scan_crashes_when_child_allocation_fails:
  "(case pico_blockdev_register 6 0 (s4b_start\<lparr>alloc_plan := [False]\<rparr>) of
      Inl f \<Rightarrow> f = NullDeref
    | Inr (r, st) \<Rightarrow> False)
   \<and> (case pico_blockdev_register 6 0 (s4b_start\<lparr>alloc_plan := [True, False]\<rparr>) of
        Inl f \<Rightarrow> False
      | Inr (r, st) \<Rightarrow>
          bd_log st = [LogDebug, LogError (- ENOMEM), LogInfo 4096 512, BdRegisterEvent 2, BdRegisterEvent 0]
          \<and> map_option children (heap st 0) = Some [2])"
  by code_simp

end
